theory Spec2Isabelle
  imports Complex_Main "HOL-Library.Sublist"
begin

section \<open>Strings\<close>

text \<open>
  A Python \<open>str\<close> is modelled as a \<open>string\<close>: one \<open>char\<close> per code point, which covers the
  code points below 256.  \<open>is_space\<close> is \<open>str.isspace\<close> on one such code point: the
  characters that \<open>str.split()\<close> and \<open>str.strip()\<close> treat as whitespace.
\<close>

definition is_space :: "char \<Rightarrow> bool" where
  "is_space c =
     (let n = (of_char c :: nat)
      in (9 \<le> n \<and> n \<le> 13) \<or> (28 \<le> n \<and> n \<le> 32) \<or> n = 133 \<or> n = 160)"

text \<open>
  \<open>s.split()\<close> without arguments: the maximal runs of non-whitespace characters, in
  order.  \<open>split_from word cs\<close> scans \<open>cs\<close> with the word read so far.
\<close>

fun split_from :: "string \<Rightarrow> string \<Rightarrow> string list" where
  "split_from word [] = (if word = [] then [] else [word])"
| "split_from word (c # cs) =
     (if is_space c
      then (if word = [] then split_from [] cs else word # split_from [] cs)
      else split_from (word @ [c]) cs)"

definition str_split :: "string \<Rightarrow> string list" where
  "str_split s = split_from [] s"

text \<open>\<open>" ".join(xs)\<close>.\<close>

fun str_join :: "string list \<Rightarrow> string" where
  "str_join [] = []"
| "str_join [s] = s"
| "str_join (s # t # ss) = s @ '' '' @ str_join (t # ss)"

text \<open>\<open>s.strip()\<close>: leading and trailing whitespace removed.\<close>

definition str_strip :: "string \<Rightarrow> string" where
  "str_strip s = rev (dropWhile is_space (rev (dropWhile is_space s)))"

text \<open>\<open>xs[i:]\<close>: a negative start counts from the end, and the start is clipped to the list.\<close>

definition slice_from :: "int \<Rightarrow> 'a list \<Rightarrow> 'a list" where
  "slice_from i xs =
     (let n = int (length xs);
          j = (if i < 0 then max 0 (n + i) else min i n)
      in drop (nat j) xs)"

section \<open>The chunker of \<open>RAGEngine.index_document\<close>\<close>

record chunk =
  c_text :: string
  c_position :: nat
  c_word_count :: nat

text \<open>The dictionary appended to \<open>self.chunks\<close> when the buffer \<open>current_chunk\<close> is closed.\<close>

definition make_chunk :: "chunk list \<Rightarrow> string list \<Rightarrow> chunk" where
  "make_chunk chunks current_chunk =
     (let chunk_text = str_join current_chunk
      in \<lparr>c_text = chunk_text,
          c_position = length chunks,
          c_word_count = length (str_split chunk_text)\<rparr>)"

text \<open>\<open>current_chunk[-(overlap // 10):] if overlap > 0 else []\<close>.\<close>

definition overlap_sentences :: "int \<Rightarrow> string list \<Rightarrow> string list" where
  "overlap_sentences overlap current_chunk =
     (if overlap > 0 then slice_from (- (overlap div 10)) current_chunk else [])"

definition words_in :: "string list \<Rightarrow> nat" where
  "words_in ss = sum_list (map (\<lambda>s. length (str_split s)) ss)"

text \<open>
  The loop state is \<open>(self.chunks, current_chunk, current_length)\<close>; \<open>chunk_step\<close> is one
  iteration of the \<open>for sentence in sentences\<close> loop.
\<close>

type_synonym chunker_state = "chunk list \<times> string list \<times> nat"

definition chunk_step :: "int \<Rightarrow> int \<Rightarrow> chunker_state \<Rightarrow> string \<Rightarrow> chunker_state" where
  "chunk_step chunk_size overlap st sentence =
     (case st of (chunks, current_chunk, current_length) \<Rightarrow>
        let sentence_length = length (str_split sentence)
        in if int (current_length + sentence_length) > chunk_size \<and> current_chunk \<noteq> []
           then let chunks' = chunks @ [make_chunk chunks current_chunk];
                    seed = overlap_sentences overlap current_chunk
                in (chunks', seed @ [sentence], words_in seed + sentence_length)
           else (chunks, current_chunk @ [sentence], current_length + sentence_length))"

fun chunk_loop :: "int \<Rightarrow> int \<Rightarrow> string list \<Rightarrow> chunker_state \<Rightarrow> chunker_state" where
  "chunk_loop chunk_size overlap [] st = st"
| "chunk_loop chunk_size overlap (sentence # rest) st =
     chunk_loop chunk_size overlap rest (chunk_step chunk_size overlap st sentence)"

text \<open>The \<open>if current_chunk:\<close> after the loop closes the last buffer.\<close>

definition close_last :: "chunker_state \<Rightarrow> chunk list" where
  "close_last st =
     (case st of (chunks, current_chunk, current_length) \<Rightarrow>
        if current_chunk \<noteq> [] then chunks @ [make_chunk chunks current_chunk] else chunks)"

definition split_chunks :: "int \<Rightarrow> int \<Rightarrow> string list \<Rightarrow> chunk list" where
  "split_chunks chunk_size overlap sentences =
     close_last (chunk_loop chunk_size overlap sentences ([], [], 0))"

section \<open>The engine\<close>

text \<open>
  An embedding is a vector of reals (the floating-point numbers of the source are read as
  the reals they stand for).  \<open>embedding_model\<close> is \<open>self.embedding_model.encode\<close> on one
  text; encoding a batch encodes each text of it.
\<close>

type_synonym vec = "real list"

record content =
  full_text :: "string option"
  doc_metadata :: "(string \<times> string) list option"

record engine =
  embedding_model :: "string \<Rightarrow> vec"
  chunks :: "chunk list"
  chunk_embeddings :: "vec list option"
  metadata :: "(string \<times> string) list"

text \<open>\<open>RAGEngine.__init__\<close>, given the loaded model.\<close>

definition init_engine :: "(string \<Rightarrow> vec) \<Rightarrow> engine" where
  "init_engine model =
     \<lparr>embedding_model = model, chunks = [], chunk_embeddings = None, metadata = []\<rparr>"

text \<open>
  \<open>RAGEngine.index_document\<close>.  \<open>sent_tokenize\<close> is the sentence tokenizer of nltk, a
  parameter here.  The result is the returned boolean and the engine as the call leaves it.
\<close>

definition index_document ::
  "(string \<Rightarrow> string list) \<Rightarrow> engine \<Rightarrow> content \<Rightarrow> int \<Rightarrow> int \<Rightarrow> bool \<times> engine" where
  "index_document sent_tokenize self content chunk_size overlap =
     (let self1 = self\<lparr>chunks := []\<rparr>;
          text = (case full_text content of None \<Rightarrow> [] | Some t \<Rightarrow> t)
      in if text = [] \<or> length (str_strip text) < 10 then (False, self1)
         else
           let sentences = sent_tokenize text;
               chunks' = split_chunks chunk_size overlap sentences;
               self2 = self1\<lparr>chunks := chunks'\<rparr>
           in if chunks' \<noteq> []
              then (True,
                    self2\<lparr>chunk_embeddings :=
                            Some (map (embedding_model self) (map c_text chunks')),
                          metadata :=
                            (case doc_metadata content of None \<Rightarrow> [] | Some m \<Rightarrow> m)\<rparr>)
              else (False, self2))"

record summary =
  chunks_count :: nat
  total_words :: nat
  indexed :: bool

text \<open>\<open>RAGEngine.get_document_summary\<close>.\<close>

definition get_document_summary :: "engine \<Rightarrow> summary" where
  "get_document_summary self =
     \<lparr>chunks_count = length (chunks self),
      total_words = (if chunks self \<noteq> [] then sum_list (map c_word_count (chunks self)) else 0),
      indexed = (chunk_embeddings self \<noteq> None)\<rparr>"

section \<open>Search\<close>

record search_result =
  r_text :: string
  r_relevance :: real
  r_position :: nat
  r_word_count :: nat

datatype py_error = IndexError

definition make_result :: "chunk list \<Rightarrow> real list \<Rightarrow> nat \<Rightarrow> search_result" where
  "make_result cs similarities idx =
     \<lparr>r_text = c_text (cs ! idx),
      r_relevance = similarities ! idx,
      r_position = c_position (cs ! idx),
      r_word_count = c_word_count (cs ! idx)\<rparr>"

text \<open>
  The \<open>for idx in top_indices\<close> loop, with \<open>results\<close> as accumulator.  \<open>self.chunks[idx]\<close>
  raises \<open>IndexError\<close> when there are fewer chunks than embeddings.
\<close>

fun search_loop ::
  "chunk list \<Rightarrow> real list \<Rightarrow> int \<Rightarrow> real \<Rightarrow> nat list \<Rightarrow> search_result list
     \<Rightarrow> py_error + search_result list" where
  "search_loop cs similarities top_k min_similarity [] results = Inr results"
| "search_loop cs similarities top_k min_similarity (idx # rest) results =
     (if similarities ! idx < min_similarity then Inr results
      else if length cs \<le> idx then Inl IndexError
      else let results' = results @ [make_result cs similarities idx]
           in if int (length results') \<ge> top_k then Inr results'
              else search_loop cs similarities top_k min_similarity rest results')"

text \<open>
  \<open>RAGEngine.search\<close>.  The two library functions it calls are parameters:
  \<open>cosine_similarity\<close> is the function of scikit-learn on the query embedding and one chunk
  embedding, with the value it computes in floating point, whatever that is;
  \<open>argsort\<close> is \<open>np.argsort\<close>.  The embedding model returns vectors of one dimension, so
  the error of scikit-learn on vectors of different dimensions has no branch here.
\<close>

definition search ::
  "(vec \<Rightarrow> vec \<Rightarrow> real) \<Rightarrow> (real list \<Rightarrow> nat list) \<Rightarrow> engine \<Rightarrow> string \<Rightarrow> int \<Rightarrow> real
     \<Rightarrow> py_error + search_result list" where
  "search cosine_similarity argsort self query top_k min_similarity =
     (case chunk_embeddings self of
        None \<Rightarrow> Inr []
      | Some embeddings \<Rightarrow>
          if chunks self = [] then Inr []
          else
            let query_embedding = embedding_model self query;
                similarities = map (cosine_similarity query_embedding) embeddings;
                top_indices = rev (argsort similarities)
            in search_loop (chunks self) similarities top_k min_similarity top_indices [])"

text \<open>
  What numpy promises of \<open>np.argsort\<close>: the result lists every index of the array once,
  in ascending order of the values.  It promises no order among indices of equal values.
\<close>

definition argsort_contract :: "(real list \<Rightarrow> nat list) \<Rightarrow> bool" where
  "argsort_contract argsort =
     (\<forall>xs. length (argsort xs) = length xs \<and>
           set (argsort xs) = {0..<length xs} \<and>
           sorted (map (\<lambda>i. xs ! i) (argsort xs)))"

section \<open>The budget of a chunk\<close>

text \<open>
  A chunk is within the budget of \<open>chunk_size\<close> words, or it is the join of at most
  \<open>k + 1\<close> consecutive sentences of the text.
\<close>

definition within_budget :: "int \<Rightarrow> nat \<Rightarrow> string list \<Rightarrow> chunk \<Rightarrow> bool" where
  "within_budget chunk_size k sentences c =
     (int (c_word_count c) \<le> chunk_size \<or>
      (\<exists>ss. ss \<noteq> [] \<and> length ss \<le> k + 1 \<and> sublist ss sentences \<and> c_text c = str_join ss))"

section \<open>Example data\<close>

text \<open>
  The examples use a tokenizer that cuts after every full stop that a space follows (on
  the example texts it returns the sentences that nltk returns), and an embedding model
  with three values: the zero vector for the empty text, \<open>[-1, 0]\<close> for a text that
  starts with the letter N, and \<open>[1, 0]\<close> for every other text.
\<close>

fun split_sentences :: "string \<Rightarrow> string \<Rightarrow> string list" where
  "split_sentences cur [] = (if cur = [] then [] else [cur])"
| "split_sentences cur [c] = [cur @ [c]]"
| "split_sentences cur (c # d # cs) =
     (if c = CHR ''.'' \<and> d = CHR '' '' then (cur @ [c]) # split_sentences [] cs
      else split_sentences (cur @ [c]) (d # cs))"

definition example_tokenize :: "string \<Rightarrow> string list" where
  "example_tokenize t = split_sentences [] t"

definition example_model :: "string \<Rightarrow> vec" where
  "example_model s =
     (case s of [] \<Rightarrow> [0, 0] | c # _ \<Rightarrow> if c = CHR ''N'' then [- 1, 0] else [1, 0])"

text \<open>
  For the two library functions the examples use the cosine over the reals (the dot
  product over the product of the norms, 0 when a norm is 0) and an argsort that keeps
  indices of equal values in ascending order.  On the example embeddings, whose entries
  are 0, 1 and -1, floating-point arithmetic is exact and scikit-learn computes the same
  values; on the example arrays of two equal similarities numpy returns the same indices.
  In general they are not the library functions: floating point rounds, and numpy keeps no
  order among equal values.  The theorems that are not about an example hold for every
  \<open>cosine_similarity\<close> and every \<open>argsort\<close> within its contract.
\<close>

definition dot :: "vec \<Rightarrow> vec \<Rightarrow> real" where
  "dot a b = sum_list (map2 (*) a b)"

definition norm2 :: "vec \<Rightarrow> real" where
  "norm2 a = sqrt (dot a a)"

definition exact_cosine :: "vec \<Rightarrow> vec \<Rightarrow> real" where
  "exact_cosine a b =
     (if norm2 a = 0 \<or> norm2 b = 0 then 0 else dot a b / (norm2 a * norm2 b))"

definition index_order_argsort :: "real list \<Rightarrow> nat list" where
  "index_order_argsort xs = sort_key (\<lambda>i. xs ! i) [0..<length xs]"

definition example_doc :: content where
  "example_doc = \<lparr>full_text = Some ''Hello world. This is a test.'', doc_metadata = None\<rparr>"

definition numbers_doc :: content where
  "numbers_doc =
     \<lparr>full_text = Some ''One two three. Four five six. Seven eight nine.'', doc_metadata = None\<rparr>"

definition empty_doc :: content where
  "empty_doc = \<lparr>full_text = Some [], doc_metadata = None\<rparr>"

text \<open>The engine after indexing \<open>example_doc\<close> with \<open>chunk_size = 2\<close> and \<open>overlap = 0\<close>.\<close>

definition example_engine :: engine where
  "example_engine =
     snd (index_document example_tokenize (init_engine example_model) example_doc 2 0)"

section \<open>Properties of the string functions\<close>

lemma split_from_space:
  "is_space c \<Longrightarrow> split_from w (xs @ c # ys) = split_from w xs @ split_from [] ys"
  by (induction xs arbitrary: w) auto

lemma str_split_join: "str_split (str_join ss) = concat (map str_split ss)"
proof (induction ss rule: str_join.induct)
  case 1
  show ?case by (simp add: str_split_def)
next
  case (2 s)
  show ?case by simp
next
  case (3 s t ss)
  have sp: "is_space CHR '' ''" by (simp add: is_space_def)
  have "str_split (str_join (s # t # ss)) = split_from [] (s @ CHR '' '' # str_join (t # ss))"
    by (simp add: str_split_def)
  also have "\<dots> = split_from [] s @ split_from [] (str_join (t # ss))"
    using sp by (rule split_from_space)
  finally show ?case using 3 by (simp add: str_split_def)
qed

section \<open>Properties of the chunker\<close>

lemma position_make_chunk: "c_position (make_chunk cks b) = length cks"
  by (simp add: make_chunk_def Let_def)

lemma text_make_chunk: "c_text (make_chunk cks b) = str_join b"
  by (simp add: make_chunk_def Let_def)

lemma word_count_make_chunk: "c_word_count (make_chunk cks b) = words_in b"
  by (simp add: make_chunk_def Let_def words_in_def str_split_join length_concat comp_def)

lemma words_in_append: "words_in (xs @ ys) = words_in xs + words_in ys"
  by (simp add: words_in_def)

lemma positions_step:
  assumes "map c_position (fst st) = [0..<length (fst st)]"
  shows "map c_position (fst (chunk_step cs ov st s)) = [0..<length (fst (chunk_step cs ov st s))]"
  using assms by (cases st) (simp add: chunk_step_def position_make_chunk Let_def)

lemma positions_loop:
  "map c_position (fst st) = [0..<length (fst st)] \<Longrightarrow>
   map c_position (fst (chunk_loop cs ov ss st)) = [0..<length (fst (chunk_loop cs ov ss st))]"
proof (induction ss arbitrary: st)
  case Nil
  then show ?case by simp
next
  case (Cons s ss)
  show ?case using Cons.IH [OF positions_step [OF Cons.prems]] by simp
qed

lemma positions_close_last:
  "map c_position (fst st) = [0..<length (fst st)] \<Longrightarrow>
   map c_position (close_last st) = [0..<length (close_last st)]"
  by (cases st) (simp add: close_last_def position_make_chunk)

lemma positions_split_chunks:
  "map c_position (split_chunks cs ov ss) = [0..<length (split_chunks cs ov ss)]"
  unfolding split_chunks_def
  by (rule positions_close_last, rule positions_loop) simp

lemma overlap_sentences_small: "0 < overlap \<Longrightarrow> overlap < 10 \<Longrightarrow> overlap_sentences overlap cur = cur"
  by (simp add: overlap_sentences_def slice_from_def)

lemma overlap_sentences_none: "overlap \<le> 0 \<Longrightarrow> overlap_sentences overlap cur = []"
  by (simp add: overlap_sentences_def)

lemma overlap_sentences_tail:
  assumes "10 \<le> overlap"
  shows "overlap_sentences overlap cur = drop (length cur - nat (overlap div 10)) cur"
proof -
  have k: "0 < overlap div 10" using assms by simp
  then have "nat (max 0 (int (length cur) - overlap div 10)) = length cur - nat (overlap div 10)"
    by simp
  with k assms show ?thesis
    by (simp add: overlap_sentences_def slice_from_def Let_def)
qed

lemma overlap_sentences_length:
  "overlap \<le> 0 \<or> 10 \<le> overlap \<Longrightarrow> length (overlap_sentences overlap cur) \<le> nat (overlap div 10)"
  by (auto simp: overlap_sentences_none overlap_sentences_tail)

lemma overlap_sentences_suffix:
  "overlap \<le> 0 \<or> 10 \<le> overlap \<Longrightarrow> suffix (overlap_sentences overlap cur) cur"
  by (auto simp: overlap_sentences_none overlap_sentences_tail suffix_drop)

lemma chunk_step_closing:
  assumes "chunk_size < int (len + length (str_split s))" and "cur \<noteq> []"
  shows "chunk_step chunk_size overlap (cks, cur, len) s =
           (cks @ [make_chunk cks cur],
            overlap_sentences overlap cur @ [s],
            words_in (overlap_sentences overlap cur) + length (str_split s))"
  using assms by (simp add: chunk_step_def Let_def)

lemma chunk_step_growing:
  assumes "\<not> (chunk_size < int (len + length (str_split s)) \<and> cur \<noteq> [])"
  shows "chunk_step chunk_size overlap (cks, cur, len) s =
           (cks, cur @ [s], len + length (str_split s))"
  using assms by (auto simp add: chunk_step_def Let_def)

lemma within_budget_make_chunk:
  assumes "cur \<noteq> []" and "suffix cur pre"
    and "int (words_in cur) \<le> cs \<or> length cur \<le> k + 1"
  shows "within_budget cs k (pre @ rest) (make_chunk cks cur)"
proof -
  from assms(2) have "sublist cur (pre @ rest)"
    by (auto simp: suffix_def intro: sublist_appendI)
  with assms(1,3) show ?thesis
    unfolding within_budget_def word_count_make_chunk text_make_chunk by blast
qed

lemma budget_loop:
  assumes ov: "overlap \<le> 0 \<or> 10 \<le> overlap"
  shows "sentences = pre @ rest \<Longrightarrow> len = words_in cur \<Longrightarrow> suffix cur pre \<Longrightarrow>
     int (words_in cur) \<le> cs \<or> length cur \<le> nat (overlap div 10) + 1 \<Longrightarrow>
     \<forall>c \<in> set cks. within_budget cs (nat (overlap div 10)) sentences c \<Longrightarrow>
     \<forall>c \<in> set (close_last (chunk_loop cs overlap rest (cks, cur, len))).
        within_budget cs (nat (overlap div 10)) sentences c"
proof (induction rest arbitrary: pre cks cur len)
  case Nil
  then show ?case
    using within_budget_make_chunk [of cur pre cs "nat (overlap div 10)" "[]" cks]
    by (auto simp: close_last_def)
next
  case (Cons s rest)
  let ?k = "nat (overlap div 10)"
  have sent: "sentences = (pre @ [s]) @ rest" using Cons.prems(1) by simp
  show ?case
  proof (cases "cs < int (len + length (str_split s)) \<and> cur \<noteq> []")
    case True
    let ?seed = "overlap_sentences overlap cur"
    have step: "chunk_step cs overlap (cks, cur, len) s =
        (cks @ [make_chunk cks cur], ?seed @ [s], words_in ?seed + length (str_split s))"
      using True by (simp add: chunk_step_closing)
    have a: "words_in ?seed + length (str_split s) = words_in (?seed @ [s])"
      by (simp add: words_in_def)
    have b: "suffix (?seed @ [s]) (pre @ [s])"
      using overlap_sentences_suffix [OF ov, of cur] Cons.prems(3) by (auto intro: suffix_order.trans)
    have c: "int (words_in (?seed @ [s])) \<le> cs \<or> length (?seed @ [s]) \<le> ?k + 1"
      using overlap_sentences_length [OF ov, of cur] by simp
    have "within_budget cs ?k (pre @ s # rest) (make_chunk cks cur)"
      using True Cons.prems(3,4) by (intro within_budget_make_chunk) simp_all
    then have d: "\<forall>c \<in> set (cks @ [make_chunk cks cur]). within_budget cs ?k sentences c"
      using Cons.prems(1,5) by simp
    show ?thesis
      using Cons.IH [OF sent a b c d] step by simp
  next
    case False
    have step: "chunk_step cs overlap (cks, cur, len) s = (cks, cur @ [s], len + length (str_split s))"
      using False by (rule chunk_step_growing)
    have a: "len + length (str_split s) = words_in (cur @ [s])"
      using Cons.prems(2) by (simp add: words_in_def)
    have b: "suffix (cur @ [s]) (pre @ [s])" using Cons.prems(3) by simp
    have c: "int (words_in (cur @ [s])) \<le> cs \<or> length (cur @ [s]) \<le> ?k + 1"
      using False a by (cases "cur = []") auto
    show ?thesis
      using Cons.IH [OF sent a b c Cons.prems(5)] step by simp
  qed
qed

lemma budget_split_chunks:
  assumes "overlap \<le> 0 \<or> 10 \<le> overlap" and "c \<in> set (split_chunks cs overlap sentences)"
  shows "within_budget cs (nat (overlap div 10)) sentences c"
  using budget_loop [OF assms(1), of sentences "[]" sentences 0 "[]" cs "[]"] assms(2)
  by (simp add: split_chunks_def words_in_def)

section \<open>Properties of the search loop\<close>

lemma search_loop_shape:
  "search_loop cs sims k ms idxs acc = Inr rs \<Longrightarrow>
   \<exists>n. rs = acc @ map (make_result cs sims) (take n idxs) \<and>
       (\<forall>i \<in> set (take n idxs). ms \<le> sims ! i \<and> i < length cs)"
proof (induction idxs arbitrary: acc)
  case Nil
  then show ?case by simp
next
  case (Cons idx rest)
  show ?case
  proof (cases "sims ! idx < ms")
    case True
    with Cons.prems have "rs = acc" by simp
    then have "rs = acc @ map (make_result cs sims) (take 0 (idx # rest)) \<and>
       (\<forall>i \<in> set (take 0 (idx # rest)). ms \<le> sims ! i \<and> i < length cs)" by simp
    then show ?thesis by blast
  next
    case False
    with Cons.prems have inr: "idx < length cs" by (simp split: if_splits)
    let ?acc = "acc @ [make_result cs sims idx]"
    show ?thesis
    proof (cases "k \<le> int (length ?acc)")
      case True
      with False inr Cons.prems have "rs = ?acc" by (simp add: Let_def)
      then have "rs = acc @ map (make_result cs sims) (take 1 (idx # rest)) \<and>
         (\<forall>i \<in> set (take 1 (idx # rest)). ms \<le> sims ! i \<and> i < length cs)"
        using False inr by simp
      then show ?thesis by blast
    next
      case stop: False
      with False inr Cons.prems have "search_loop cs sims k ms rest ?acc = Inr rs"
        by (simp add: Let_def)
      from Cons.IH [OF this] obtain n where
        n: "rs = ?acc @ map (make_result cs sims) (take n rest)"
           "\<forall>i \<in> set (take n rest). ms \<le> sims ! i \<and> i < length cs" by blast
      then have "rs = acc @ map (make_result cs sims) (take (Suc n) (idx # rest)) \<and>
         (\<forall>i \<in> set (take (Suc n) (idx # rest)). ms \<le> sims ! i \<and> i < length cs)"
        using False inr by simp
      then show ?thesis by blast
    qed
  qed
qed

lemma search_loop_length:
  "search_loop cs sims k ms idxs acc = Inr rs \<Longrightarrow>
   int (length rs) \<le> max k (int (length acc) + 1)"
proof (induction idxs arbitrary: acc)
  case Nil
  then show ?case by simp
next
  case (Cons idx rest)
  show ?case
  proof (cases "sims ! idx < ms \<or> k \<le> int (length acc) + 1")
    case True
    with Cons.prems show ?thesis by (auto simp: Let_def split: if_splits)
  next
    case False
    with Cons.prems have "search_loop cs sims k ms rest (acc @ [make_result cs sims idx]) = Inr rs"
      by (simp add: Let_def split: if_splits)
    from Cons.IH [OF this] False show ?thesis by simp
  qed
qed

lemma search_loop_total:
  "\<forall>i \<in> set idxs. i < length cs \<Longrightarrow> \<exists>rs. search_loop cs sims k ms idxs acc = Inr rs"
  by (induction idxs arbitrary: acc) (simp_all add: Let_def)

lemma search_loop_first:
  "ms \<le> sims ! idx \<Longrightarrow> idx < length cs \<Longrightarrow> k \<le> 1 \<Longrightarrow>
   search_loop cs sims k ms (idx # rest) [] = Inr [make_result cs sims idx]"
  by (simp add: Let_def)

lemma relevance_make_result: "r_relevance (make_result cs sims i) = sims ! i"
  by (simp add: make_result_def)

section \<open>Properties of search, for every argsort within its contract\<close>

lemma set_argsort: "argsort_contract asort \<Longrightarrow> set (asort xs) = {0..<length xs}"
  by (simp add: argsort_contract_def)

lemma length_argsort: "argsort_contract asort \<Longrightarrow> length (asort xs) = length xs"
  by (simp add: argsort_contract_def)

lemma sorted_argsort: "argsort_contract asort \<Longrightarrow> sorted (map (\<lambda>i. xs ! i) (asort xs))"
  by (simp add: argsort_contract_def)

lemma top_indices_descending:
  "argsort_contract asort \<Longrightarrow> sorted_wrt (\<lambda>i j. xs ! j \<le> xs ! i) (rev (asort xs))"
  using sorted_argsort [of asort xs] by (simp add: sorted_wrt_rev sorted_map)

lemma top_index_max:
  assumes ac: "argsort_contract asort" and "xs \<noteq> []"
  shows "\<exists>idx rest. rev (asort xs) = idx # rest \<and> idx < length xs \<and>
           (\<forall>j < length xs. xs ! j \<le> xs ! idx)"
proof -
  have "rev (asort xs) \<noteq> []" using assms length_argsort [OF ac, of xs] by auto
  then obtain idx rest where eq: "rev (asort xs) = idx # rest"
    by (cases "rev (asort xs)") auto
  have mem: "set (idx # rest) = {0..<length xs}"
    using set_argsort [OF ac, of xs] eq by (metis set_rev)
  have "sorted_wrt (\<lambda>i j. xs ! j \<le> xs ! i) (idx # rest)"
    using top_indices_descending [OF ac, of xs] eq by simp
  then have "\<forall>j \<in> set (idx # rest). xs ! j \<le> xs ! idx" by auto
  with mem eq show ?thesis by auto
qed

lemma search_shape:
  assumes "search sim asort self q k ms = Inr rs" and "rs \<noteq> []"
  shows "\<exists>embs n. chunk_embeddings self = Some embs \<and>
           rs = map (make_result (chunks self) (map (sim (embedding_model self q)) embs))
                  (take n (rev (asort (map (sim (embedding_model self q)) embs)))) \<and>
           (\<forall>i \<in> set (take n (rev (asort (map (sim (embedding_model self q)) embs)))).
                ms \<le> map (sim (embedding_model self q)) embs ! i \<and>
                i < length (chunks self))"
proof (cases "chunk_embeddings self")
  case None
  with assms show ?thesis by (simp add: search_def)
next
  case (Some embs)
  let ?sims = "map (sim (embedding_model self q)) embs"
  from assms Some have "search_loop (chunks self) ?sims k ms (rev (asort ?sims)) [] = Inr rs"
    by (simp add: search_def Let_def split: if_splits)
  from search_loop_shape [OF this] Some show ?thesis by auto
qed

lemma results_bounded:
  "search sim asort self q k ms = Inr rs \<Longrightarrow> int (length rs) \<le> max k 1"
  using search_loop_length [of "chunks self" _ k ms _ "[]" rs]
  by (auto simp: search_def Let_def split: option.splits if_splits)

lemma search_empty_below_floor:
  assumes ac: "argsort_contract asort"
    and "chunk_embeddings self = Some embs"
    and "\<forall>e \<in> set embs. sim (embedding_model self q) e < ms"
  shows "search sim asort self q k ms = Inr []"
proof (cases "chunks self = []")
  case True
  with assms show ?thesis by (simp add: search_def)
next
  case False
  let ?sims = "map (sim (embedding_model self q)) embs"
  show ?thesis
  proof (cases "rev (asort ?sims)")
    case Nil
    with False assms show ?thesis by (simp add: search_def Let_def)
  next
    case (Cons idx rest)
    then have "idx \<in> set (asort ?sims)" by (metis list.set_intros(1) set_rev)
    then have "idx < length embs" by (simp add: set_argsort [OF ac])
    then have "?sims ! idx < ms" using assms(3) by simp
    with False assms Cons show ?thesis by (simp add: search_def Let_def)
  qed
qed

lemma index_document_False:
  "index_document tok self doc cs ov = (False, self') \<Longrightarrow> chunks self' = []"
  by (auto simp: index_document_def Let_def split: if_splits)

lemma index_document_True:
  assumes "index_document tok self doc cs ov = (True, self')"
  shows "chunks self' \<noteq> [] \<and>
         chunk_embeddings self' = Some (map (embedding_model self') (map c_text (chunks self'))) \<and>
         embedding_model self' = embedding_model self"
  using assms by (auto simp: index_document_def Let_def split: if_splits)

text \<open>After \<open>index_document\<close>, successful or not, \<open>search\<close> returns: it does not raise.\<close>

lemma search_returns:
  assumes ac: "argsort_contract asort"
    and ix: "index_document tok self0 doc cs ov = (b, self)"
  shows "\<exists>rs. search sim asort self q k ms = Inr rs"
proof (cases b)
  case False
  with ix have "chunks self = []" by (simp add: index_document_False)
  then show ?thesis by (simp add: search_def split: option.splits)
next
  case True
  let ?embs = "map (embedding_model self) (map c_text (chunks self))"
  let ?sims = "map (sim (embedding_model self q)) ?embs"
  from True ix have "index_document tok self0 doc cs ov = (True, self)" by simp
  from index_document_True [OF this] have embs: "chunk_embeddings self = Some ?embs" by simp
  have "\<forall>i \<in> set (rev (asort ?sims)). i < length (chunks self)"
    by (simp add: set_argsort [OF ac])
  from search_loop_total [OF this] embs show ?thesis
    by (simp add: search_def Let_def)
qed

text \<open>What \<open>search\<close> returns, on any engine.\<close>

lemma descending_if_returned:
  assumes ac: "argsort_contract asort" and run: "search sim asort self q k ms = Inr rs"
  shows "sorted_wrt (\<lambda>a b. r_relevance b \<le> r_relevance a) rs"
proof (cases "rs = []")
  case True
  then show ?thesis by simp
next
  case False
  from search_shape [OF run False] obtain embs n where
    rs: "rs = map (make_result (chunks self) (map (sim (embedding_model self q)) embs))
                  (take n (rev (asort (map (sim (embedding_model self q)) embs))))"
    by blast
  let ?sims = "map (sim (embedding_model self q)) embs"
  have "sorted_wrt (\<lambda>i j. ?sims ! j \<le> ?sims ! i) (take n (rev (asort ?sims)))"
    using top_indices_descending [OF ac] by (rule sorted_wrt_take)
  then show ?thesis
    unfolding rs by (simp add: sorted_wrt_map relevance_make_result)
qed


text \<open>The argsort of the examples is within the contract.\<close>

lemma index_order_argsort_contract: "argsort_contract index_order_argsort"
  by (simp add: argsort_contract_def index_order_argsort_def)

section \<open>The examples, evaluated\<close>

lemmas chunker_eval =
  index_document_def init_engine_def example_tokenize_def example_model_def
  split_chunks_def chunk_step_def close_last_def make_chunk_def overlap_sentences_def
  slice_from_def words_in_def str_split_def str_strip_def is_space_def Let_def

lemma example_index:
  "index_document example_tokenize (init_engine example_model) example_doc 2 0 =
     (True,
      \<lparr>embedding_model = example_model,
       chunks = [\<lparr>c_text = ''Hello world.'', c_position = 0, c_word_count = 2\<rparr>,
                 \<lparr>c_text = ''This is a test.'', c_position = 1, c_word_count = 4\<rparr>],
       chunk_embeddings = Some [[1, 0], [1, 0]],
       metadata = []\<rparr>)"
  by (simp add: example_doc_def chunker_eval)

lemma example_engine_eq:
  "example_engine =
      \<lparr>embedding_model = example_model,
       chunks = [\<lparr>c_text = ''Hello world.'', c_position = 0, c_word_count = 2\<rparr>,
                 \<lparr>c_text = ''This is a test.'', c_position = 1, c_word_count = 4\<rparr>],
       chunk_embeddings = Some [[1, 0], [1, 0]],
       metadata = []\<rparr>"
  by (simp add: example_engine_def example_index)

lemmas search_eval =
  example_engine_eq search_def example_model_def exact_cosine_def norm2_def dot_def
  index_order_argsort_def make_result_def upt_rec Let_def

lemma empty_text_not_indexed:
  assumes "full_text doc = Some []"
  shows "index_document tok self doc chunk_size overlap = (False, self\<lparr>chunks := []\<rparr>)"
  using assms by (simp add: index_document_def)

lemma summary_after_empty_text:
  assumes "full_text doc = Some []"
  shows "indexed (get_document_summary (snd (index_document tok self doc chunk_size overlap))) =
           (chunk_embeddings self \<noteq> None)"
  using assms by (simp add: index_document_def get_document_summary_def)

section \<open>The claims\<close>

subsection \<open>C1: the two-sided limit of search\<close>

text \<open>
  C1 says that \<open>search\<close> returns at most \<open>top_k\<close> results, each with a relevance of at
  least \<open>min_similarity\<close>, and nothing when no similarity reaches \<open>min_similarity\<close>.  The
  source tests \<open>len(results) >= top_k\<close> only after it has appended a result: with
  \<open>top_k = 0\<close> the example engine returns one result.
\<close>

theorem top_k_zero_exceeds_bound:
  "search exact_cosine index_order_argsort example_engine ''Hello'' 0 (3 / 10) =
     Inr [\<lparr>r_text = ''This is a test.'', r_relevance = 1, r_position = 1, r_word_count = 4\<rparr>]"
  by (simp add: search_eval)

subsection \<open>C2: the order of the results\<close>

text \<open>
  C2 as stated fails: the two chunks of the example engine have the same relevance for the
  query, and the chunk at position 1 comes before the chunk at position 0.
\<close>

theorem equal_relevance_later_chunk_first:
  "search exact_cosine index_order_argsort example_engine ''Hello'' 3 (3 / 10) =
     Inr [\<lparr>r_text = ''This is a test.'', r_relevance = 1, r_position = 1, r_word_count = 4\<rparr>,
          \<lparr>r_text = ''Hello world.'', r_relevance = 1, r_position = 0, r_word_count = 2\<rparr>]"
  by (simp add: search_eval)

text \<open>
  C2, amended: after \<open>index_document\<close>, \<open>search\<close> returns, and its results are in
  descending order of relevance (each relevance is at most the one before it), whatever
  order \<open>argsort\<close> gives to equal values.
\<close>

theorem results_descending:
  assumes "argsort_contract asort"
    and "index_document tok self0 doc chunk_size overlap = (b, self)"
  shows "\<exists>rs. search sim asort self q k ms = Inr rs \<and>
              sorted_wrt (\<lambda>a b. r_relevance b \<le> r_relevance a) rs"
  using search_returns [OF assms] descending_if_returned [OF assms(1)] by blast

theorem results_descending_witness:
  "argsort_contract index_order_argsort \<and>
   index_document example_tokenize (init_engine example_model) example_doc 2 0 = (True, example_engine) \<and>
   search exact_cosine index_order_argsort example_engine ''Hello'' 2 (1 / 2) =
     Inr [\<lparr>r_text = ''This is a test.'', r_relevance = 1, r_position = 1, r_word_count = 4\<rparr>,
          \<lparr>r_text = ''Hello world.'', r_relevance = 1, r_position = 0, r_word_count = 2\<rparr>] \<and>
   sorted_wrt (\<lambda>a b. r_relevance b \<le> r_relevance a)
     [\<lparr>r_text = ''This is a test.'', r_relevance = 1, r_position = 1, r_word_count = 4\<rparr>,
      \<lparr>r_text = ''Hello world.'', r_relevance = 1, r_position = 0, r_word_count = 2\<rparr>]"
proof -
  have ix: "index_document example_tokenize (init_engine example_model) example_doc 2 0 =
      (True, example_engine)"
    by (simp add: example_index example_engine_eq)
  have run: "search exact_cosine index_order_argsort example_engine ''Hello'' 2 (1 / 2) =
     Inr [\<lparr>r_text = ''This is a test.'', r_relevance = 1, r_position = 1, r_word_count = 4\<rparr>,
          \<lparr>r_text = ''Hello world.'', r_relevance = 1, r_position = 0, r_word_count = 2\<rparr>]"
    by (simp add: search_eval)
  from results_descending [OF index_order_argsort_contract ix, of exact_cosine "''Hello''" 2 "1 / 2"]
  have "sorted_wrt (\<lambda>a b. r_relevance b \<le> r_relevance a)
     [\<lparr>r_text = ''This is a test.'', r_relevance = 1, r_position = 1, r_word_count = 4\<rparr>,
      \<lparr>r_text = ''Hello world.'', r_relevance = 1, r_position = 0, r_word_count = 2\<rparr>]"
    unfolding run by blast
  with index_order_argsort_contract ix run show ?thesis by blast
qed

subsection \<open>C3: the overlap tail\<close>

text \<open>
  C3 says that a closed buffer seeds the next one with its last \<open>overlap div 10\<close>
  sentences.  With \<open>overlap = 5\<close> that is no sentence, but the slice \<open>current_chunk[-0:]\<close> of
  the source is the whole buffer: the sentence of the closed chunk is carried over and the
  word count restarts at 3.
\<close>

theorem overlap_below_ten_carries_buffer:
  "chunk_step 4 5 ([], [''One two three.''], 3) ''Four five six.'' =
     ([\<lparr>c_text = ''One two three.'', c_position = 0, c_word_count = 3\<rparr>],
      [''One two three.'', ''Four five six.''], 6)"
  by (simp add: chunker_eval)

subsection \<open>C4: the word budget of a chunk\<close>

text \<open>
  C4 as stated fails: with \<open>chunk_size = 4\<close> and \<open>overlap = 10\<close> the second and the third
  chunk have two sentences and six words each.
\<close>

theorem overlap_tail_exceeds_budget:
  "chunks (snd (index_document example_tokenize (init_engine example_model) numbers_doc 4 10)) =
     [\<lparr>c_text = ''One two three.'', c_position = 0, c_word_count = 3\<rparr>,
      \<lparr>c_text = ''One two three. Four five six.'', c_position = 1, c_word_count = 6\<rparr>,
      \<lparr>c_text = ''Four five six. Seven eight nine.'', c_position = 2, c_word_count = 6\<rparr>]"
  by (simp add: numbers_doc_def chunker_eval)

text \<open>
  C4, amended: for \<open>overlap \<le> 0\<close> or \<open>overlap \<ge> 10\<close>, every chunk produced by indexing
  has a word count of at most \<open>chunk_size\<close>, unless it is made of at most
  \<open>overlap div 10 + 1\<close> consecutive sentences of the text: the overlap tail and one more
  sentence.  With \<open>overlap = 0\<close> that is exactly one sentence.
\<close>

theorem chunk_budget:
  assumes "overlap \<le> 0 \<or> 10 \<le> overlap"
    and "full_text doc = Some t"
    and "c \<in> set (chunks (snd (index_document tok self doc chunk_size overlap)))"
  shows "int (c_word_count c) \<le> chunk_size \<or>
         (\<exists>ss. ss \<noteq> [] \<and> length ss \<le> nat (overlap div 10) + 1 \<and> sublist ss (tok t) \<and>
               c_text c = str_join ss)"
proof -
  from assms(2,3) have "c \<in> set (split_chunks chunk_size overlap (tok t))"
    by (auto simp: index_document_def Let_def split: if_splits)
  from budget_split_chunks [OF assms(1) this] show ?thesis
    by (simp add: within_budget_def)
qed

theorem chunk_budget_witness:
  "\<lparr>c_text = ''One two three. Four five six.'', c_position = 1, c_word_count = 6\<rparr>
     \<in> set (chunks (snd (index_document example_tokenize (init_engine example_model) numbers_doc 4 10))) \<and>
   (\<exists>ss. ss \<noteq> [] \<and> length ss \<le> 2 \<and>
         sublist ss (example_tokenize ''One two three. Four five six. Seven eight nine.'') \<and>
         ''One two three. Four five six.'' = str_join ss)"
proof -
  let ?c = "\<lparr>c_text = ''One two three. Four five six.'', c_position = 1, c_word_count = 6\<rparr>"
  have ov: "(10::int) \<le> 0 \<or> (10::int) \<le> 10" by simp
  have doc: "full_text numbers_doc = Some ''One two three. Four five six. Seven eight nine.''"
    by (simp add: numbers_doc_def)
  have mem: "?c \<in> set (chunks (snd (index_document example_tokenize (init_engine example_model)
      numbers_doc 4 10)))"
    by (simp add: numbers_doc_def chunker_eval)
  have k: "nat (10 div 10) + 1 = 2" by simp
  from chunk_budget [OF ov doc mem] mem show ?thesis
    unfolding k by simp
qed

subsection \<open>C5: indexing the empty text\<close>

text \<open>
  C5 says that after \<open>index_document\<close> on the empty text the summary reports
  \<open>indexed = False\<close>, whatever the engine held.  The source returns \<open>False\<close> and clears
  \<open>self.chunks\<close>, but keeps \<open>self.chunk_embeddings\<close>: on the example engine, which has
  indexed a document, the summary still reports \<open>indexed = True\<close>.
\<close>

theorem stale_index_reported:
  "\<not> fst (index_document example_tokenize example_engine empty_doc 400 50) \<and>
   indexed (get_document_summary (snd (index_document example_tokenize example_engine empty_doc 400 50)))"
  by (simp add: empty_doc_def index_document_def example_engine_eq get_document_summary_def)

subsection \<open>C6: positions\<close>

text \<open>
  C6: the positions of the chunks that \<open>index_document\<close> leaves in the engine are
  \<open>0, 1, 2, ...\<close> in output order, without gaps: the i-th chunk has position i.
\<close>

theorem positions_dense:
  "map c_position (chunks (snd (index_document tok self doc chunk_size overlap))) =
     [0..<length (chunks (snd (index_document tok self doc chunk_size overlap)))]"
  by (simp add: index_document_def Let_def positions_split_chunks)

subsection \<open>C7: the range of the relevance\<close>




subsection \<open>C9: search with top_k = 0\<close>

text \<open>
  C9: after a successful \<open>index_document\<close>, when some chunk has a similarity to the query
  of at least \<open>min_similarity\<close>, \<open>search\<close> with \<open>top_k = 0\<close> returns exactly one result.
\<close>

theorem top_k_zero_returns_one:
  assumes ac: "argsort_contract asort"
    and ix: "index_document tok self0 doc cs ov = (True, self)"
    and c: "c \<in> set (chunks self)"
    and ms: "ms \<le> sim (embedding_model self q) (embedding_model self (c_text c))"
  shows "\<exists>r. search sim asort self q 0 ms = Inr [r]"
proof -
  let ?embs = "map (embedding_model self) (map c_text (chunks self))"
  let ?sims = "map (sim (embedding_model self q)) ?embs"
  from index_document_True [OF ix] have ne: "chunks self \<noteq> []"
    and embs: "chunk_embeddings self = Some ?embs" by simp_all
  have len: "length ?sims = length (chunks self)" by simp
  from ne have "?sims \<noteq> []" by simp
  from top_index_max [OF ac this] obtain idx rest where
    top: "rev (asort ?sims) = idx # rest" and idx: "idx < length (chunks self)"
    and mx: "\<forall>j < length (chunks self). ?sims ! j \<le> ?sims ! idx"
    unfolding len by blast
  from c obtain j where j: "j < length (chunks self)" "chunks self ! j = c"
    by (auto simp: in_set_conv_nth)
  then have "?sims ! j = sim (embedding_model self q) (embedding_model self (c_text c))"
    by simp
  with ms mx j have "ms \<le> ?sims ! idx" by fastforce
  then have "search_loop (chunks self) ?sims 0 ms (idx # rest) [] =
      Inr [make_result (chunks self) ?sims idx]"
    using idx by (intro search_loop_first) simp_all
  then have "search sim asort self q 0 ms = Inr [make_result (chunks self) ?sims idx]"
    using embs ne top by (simp add: search_def Let_def)
  then show ?thesis by blast
qed

theorem top_k_zero_returns_one_witness:
  "argsort_contract index_order_argsort \<and>
   index_document example_tokenize (init_engine example_model) example_doc 2 0 = (True, example_engine) \<and>
   (\<exists>r. search exact_cosine index_order_argsort example_engine ''Hello'' 0 (3 / 10) = Inr [r])"
proof -
  have ix: "index_document example_tokenize (init_engine example_model) example_doc 2 0 =
      (True, example_engine)"
    by (simp add: example_index example_engine_eq)
  have c: "\<lparr>c_text = ''Hello world.'', c_position = 0, c_word_count = 2\<rparr> \<in> set (chunks example_engine)"
    by (simp add: example_engine_eq)
  have ms: "3 / 10 \<le> exact_cosine (embedding_model example_engine ''Hello'')
       (embedding_model example_engine (c_text \<lparr>c_text = ''Hello world.'', c_position = 0, c_word_count = 2\<rparr>))"
    by (simp add: search_eval)
  from top_k_zero_returns_one
      [where sim = exact_cosine and q = "''Hello''", OF index_order_argsort_contract ix c ms]
    index_order_argsort_contract ix
  show ?thesis by blast
qed

subsection \<open>C10: search after a failed indexing\<close>

text \<open>
  C10: after an \<open>index_document\<close> that returned \<open>False\<close>, every \<open>search\<close> returns the
  empty list, whatever the engine held before.
\<close>

theorem failed_index_then_search_empty:
  assumes "index_document tok self doc cs ov = (False, self')"
  shows "search sim asort self' q k ms = Inr []"
  using index_document_False [OF assms] by (simp add: search_def split: option.splits)

theorem failed_index_then_search_empty_witness:
  "index_document example_tokenize example_engine empty_doc 400 50 =
     (False, example_engine\<lparr>chunks := []\<rparr>) \<and>
   search exact_cosine index_order_argsort (example_engine\<lparr>chunks := []\<rparr>) ''Hello'' 3 (3 / 10) = Inr []"
proof -
  have ix: "index_document example_tokenize example_engine empty_doc 400 50 =
     (False, example_engine\<lparr>chunks := []\<rparr>)"
    by (simp add: empty_text_not_indexed empty_doc_def)
  from ix failed_index_then_search_empty [OF ix] show ?thesis by (rule conjI)
qed

end
